theory Spec2Isabelle
  imports Main "HOL-Library.AList" "HOL-Library.Sublist" "HOL-Library.List_Lexorder"
    "HOL-Library.Char_ord" "HOL-Library.Multiset"
begin

section \<open>Values of the language\<close>

text \<open>
  The store keeps and hands out plain data. A value is \<open>undefined\<close>, \<open>null\<close>, a
  boolean, a number, a string, an array or a plain object. An object is the list of its
  own properties in enumeration order; a property name occurs once in an object of the
  language.

  Numbers are opaque to the store: only whether a number is finite matters (the
  serializer writes \<open>null\<close> for the others), so the finite ones are carried as integers.

  Outside the value universe: callables, symbols, bigints, cyclic structures, class
  instances and objects with accessors or a \<open>toJSON\<close> member. A slice name is a data
  key: \<open>__proto__\<close> as a slice name is outside the model. So is the rule that
  array-index names are enumerated before the other names (no statement below depends
  on the position of a name).
\<close>

datatype number = Finite int | NaN | PosInfinity | NegInfinity

datatype jsval =
    JUndefined
  | JNull
  | JBool bool
  | JNum number
  | JStr string
  | JArr "jsval list"
  | JObj "(string \<times> jsval) list"

text \<open>
  A JSON text is represented by its syntax tree. \<open>JSON.stringify\<close> writes no
  white space and one spelling for each token, so two texts it produces are the same
  string exactly when their trees are equal.
\<close>

datatype json =
    JsNull
  | JsBool bool
  | JsNum int
  | JsStr string
  | JsArr "json list"
  | JsObj "(string \<times> json) list"

datatype error =
    Error string      \<comment> \<open>\<open>throw new Error(message)\<close>\<close>
  | SyntaxError       \<comment> \<open>raised by \<open>JSON.parse\<close>\<close>
  | TypeError         \<comment> \<open>raised by the language runtime\<close>

section \<open>The runtime's JSON functions\<close>

text \<open>
  \<open>JSON.stringify(v)\<close> returns \<open>undefined\<close> (here \<open>None\<close>) when \<open>v\<close> is
  \<open>undefined\<close>. Inside an array \<open>undefined\<close> is written as \<open>null\<close>; inside an object
  a property whose value is \<open>undefined\<close> is left out. A number that is not finite is
  written as \<open>null\<close>.
\<close>

fun JSON_stringify :: "jsval \<Rightarrow> json option" where
  "JSON_stringify JUndefined = None"
| "JSON_stringify JNull = Some JsNull"
| "JSON_stringify (JBool b) = Some (JsBool b)"
| "JSON_stringify (JNum n) = Some (case n of Finite i \<Rightarrow> JsNum i | _ \<Rightarrow> JsNull)"
| "JSON_stringify (JStr s) = Some (JsStr s)"
| "JSON_stringify (JArr xs) =
     Some (JsArr (map (\<lambda>x. case JSON_stringify x of None \<Rightarrow> JsNull | Some j \<Rightarrow> j) xs))"
| "JSON_stringify (JObj ps) =
     Some (JsObj (concat (map (\<lambda>p. case JSON_stringify (snd p) of
                                        None \<Rightarrow> []
                                      | Some j \<Rightarrow> [(fst p, j)]) ps)))"

text \<open>The members written for the properties of an object.\<close>

abbreviation members :: "(string \<times> jsval) list \<Rightarrow> (string \<times> json) list" where
  "members ps \<equiv>
     concat (map (\<lambda>p. case JSON_stringify (snd p) of None \<Rightarrow> [] | Some j \<Rightarrow> [(fst p, j)]) ps)"

text \<open>
  \<open>JSON.parse\<close> on a text. Member names in a text are taken to be distinct, as they
  are in every text \<open>JSON.stringify\<close> writes.
\<close>

fun JSON_parse :: "json \<Rightarrow> jsval" where
  "JSON_parse JsNull = JNull"
| "JSON_parse (JsBool b) = JBool b"
| "JSON_parse (JsNum i) = JNum (Finite i)"
| "JSON_parse (JsStr s) = JStr s"
| "JSON_parse (JsArr js) = JArr (map JSON_parse js)"
| "JSON_parse (JsObj ms) = JObj (map (\<lambda>m. (fst m, JSON_parse (snd m))) ms)"

section \<open>utils/helpers.ts\<close>

text \<open>
  \<open>cloneObject = (obj) => JSON.parse(JSON.stringify(obj))\<close>. When \<open>JSON.stringify\<close>
  returns \<open>undefined\<close>, \<open>JSON.parse\<close> is handed the text \<open>undefined\<close> and raises a
  \<open>SyntaxError\<close>.
\<close>

definition cloneObject :: "jsval \<Rightarrow> error + jsval" where
  "cloneObject obj =
     (case JSON_stringify obj of
        None \<Rightarrow> Inl SyntaxError
      | Some text \<Rightarrow> Inr (JSON_parse text))"

text \<open>\<open>val !== null && typeof val === 'object' && Array.isArray(val) === false\<close>\<close>

fun isObject :: "jsval \<Rightarrow> bool" where
  "isObject (JObj ps) = True"
| "isObject v = False"

text \<open>\<open>val !== null && typeof val === 'string'\<close>\<close>

fun isString :: "jsval \<Rightarrow> bool" where
  "isString (JStr s) = True"
| "isString v = False"

text \<open>\<open>JSON.stringify(a) === JSON.stringify(b)\<close>; \<open>undefined === undefined\<close> holds.\<close>

definition isEqual :: "jsval \<Rightarrow> jsval \<Rightarrow> bool" where
  "isEqual a b \<longleftrightarrow> JSON_stringify a = JSON_stringify b"

section \<open>Structural equality\<close>

text \<open>
  Two values are structurally equal when they carry the same JSON content: their texts
  agree once the members of every object are put in the order of their names.
  \<open>isEqual\<close> compares the texts as they are written, so it implies structural
  equality and, unlike it, tells apart two objects that list the same members in
  different orders.
\<close>

fun canonical :: "json \<Rightarrow> json" where
  "canonical (JsArr js) = JsArr (map canonical js)"
| "canonical (JsObj ms) = JsObj (sort_key fst (map (\<lambda>m. (fst m, canonical (snd m))) ms))"
| "canonical j = j"

definition structurallyEqual :: "jsval \<Rightarrow> jsval \<Rightarrow> bool" where
  "structurallyEqual a b \<longleftrightarrow>
     map_option canonical (JSON_stringify a) = map_option canonical (JSON_stringify b)"

section \<open>utils/pub-sub: the notifier\<close>

text \<open>
  A subscriber callback is a function of the caller's: it has a reference (a number
  here; \<open>!==\<close> compares references), and a call of it with an argument returns or
  throws. \<open>throws c v = Some e\<close> says that the call \<open>c(v)\<close> throws \<open>e\<close>. A call is
  recorded as the pair of the reference and the argument. A selector (\<open>config\<close>)
  takes the snapshot and returns the selected value or throws (\<open>Inl\<close>), as
  \<open>s => s.user.name\<close> does on a snapshot without \<open>user\<close>. What else a callback does
  is not followed.
\<close>

datatype callback = Callback (reference: nat) (throws: "jsval \<Rightarrow> error option")

record CallbackListItem =
  callback :: callback
  config :: "jsval \<Rightarrow> error + jsval"

record PubSub =
  callbackList :: "CallbackListItem list"

type_synonym call = "nat \<times> jsval"

text \<open>
  \<open>this._callbackList.forEach(item => ...)\<close> in \<open>publish\<close>: the calls made and how
  the loop ends. Nothing catches an exception of \<open>item.config\<close> or of
  \<open>item.callback\<close>: it ends the loop, and the items after it are not visited.
\<close>

fun forEach_item :: "jsval \<Rightarrow> jsval \<Rightarrow> CallbackListItem list \<Rightarrow> call list \<times> (error + unit)" where
  "forEach_item currentState nextState [] = ([], Inr ())"
| "forEach_item currentState nextState (item # items) =
     (case config item currentState of
        Inl e \<Rightarrow> ([], Inl e)
      | Inr currentValue \<Rightarrow>
          (case config item nextState of
             Inl e \<Rightarrow> ([], Inl e)
           | Inr nextValue \<Rightarrow>
               if \<not> isEqual currentValue nextValue
               then (case throws (callback item) nextValue of
                       Some e \<Rightarrow> ([(reference (callback item), nextValue)], Inl e)
                     | None \<Rightarrow>
                         (let rest = forEach_item currentState nextState items
                          in ((reference (callback item), nextValue) # fst rest, snd rest)))
               else forEach_item currentState nextState items))"

text \<open>\<open>publish\<close>: the calls it has made, and its return or the exception it raises.\<close>

definition publish :: "jsval \<Rightarrow> jsval \<Rightarrow> PubSub \<Rightarrow> call list \<times> (error + unit)" where
  "publish currentState nextState this =
     (if \<not> isObject currentState then ([], Inl (Error ''currentState should be and object''))
      else if \<not> isObject nextState then ([], Inl (Error ''nextState should be and object''))
      else forEach_item currentState nextState (callbackList this))"

text \<open>
  An argument of \<open>subscribe\<close> is a function or some other value
  (\<open>typeof callback !== 'function'\<close>).
\<close>

datatype 'f arg = Callable 'f | NotCallable jsval

text \<open>
  The function \<open>subscribe\<close> returns closes over the callback it was given; it is
  represented by that callback, and \<open>unsubscribe\<close> is its body, run on the list as it
  is when the function is called.
\<close>

datatype unsubscriber = Unsubscriber callback

definition subscribe ::
  "callback arg \<Rightarrow> (jsval \<Rightarrow> error + jsval) arg \<Rightarrow> PubSub \<Rightarrow> error + (PubSub \<times> unsubscriber)" where
  "subscribe cb cfg this =
     (case cb of
        NotCallable v \<Rightarrow> Inl (Error ''callback should be a function'')
      | Callable c \<Rightarrow>
          (case cfg of
             NotCallable v \<Rightarrow> Inl (Error ''config should be a function'')
           | Callable f \<Rightarrow>
               Inr (this\<lparr>callbackList := callbackList this @ [\<lparr>callback = c, config = f\<rparr>]\<rparr>,
                    Unsubscriber c)))"

fun unsubscribe :: "unsubscriber \<Rightarrow> PubSub \<Rightarrow> PubSub" where
  "unsubscribe (Unsubscriber c) this =
     this\<lparr>callbackList :=
            filter (\<lambda>item. reference (callback item) \<noteq> reference c) (callbackList this)\<rparr>"




section \<open>Objects: property read, property write, spread, \<open>Object.assign\<close>\<close>

text \<open>The decimal spelling of an array index.\<close>

function decimal :: "nat \<Rightarrow> string" where
  "decimal n =
     (if n < 10 then [char_of (48 + n)]
      else decimal (n div 10) @ [char_of (48 + n mod 10)])"
  by pat_completeness auto
termination
  by (relation "measure id") auto

declare decimal.simps [simp del]

text \<open>
  The own enumerable properties of a value, in order: those of a plain object, the
  elements of an array and the characters of a string under their indices, none for
  the other primitives.
\<close>

fun ownProps :: "jsval \<Rightarrow> (string \<times> jsval) list" where
  "ownProps (JObj ps) = ps"
| "ownProps (JArr xs) = zip (map decimal [0..<length xs]) xs"
| "ownProps (JStr s) = zip (map decimal [0..<length s]) (map (\<lambda>c. JStr [c]) s)"
| "ownProps v = []"

text \<open>
  \<open>obj[key]\<close> on a plain object: the own property, or \<open>undefined\<close>. (For a name
  that \<open>Object.prototype\<close> has, the read gives a function; \<open>setState\<close> hands what
  it reads to \<open>cloneObject\<close>, which fails on a function as it does on \<open>undefined\<close>.)
\<close>

definition getProp :: "(string \<times> jsval) list \<Rightarrow> string \<Rightarrow> jsval" where
  "getProp ps key = (case map_of ps key of None \<Rightarrow> JUndefined | Some v \<Rightarrow> v)"

text \<open>
  \<open>obj[key] = v\<close> on a plain object is \<open>AList.update key v\<close>: an existing property keeps
  its place, a new one goes last. The spread \<open>{ ...a, ...b }\<close> defines the properties
  of \<open>a\<close>, then those of \<open>b\<close>, on a new object.
\<close>

definition assignProps :: "(string \<times> jsval) list \<Rightarrow> (string \<times> jsval) list \<Rightarrow> (string \<times> jsval) list" where
  "assignProps target source = fold (\<lambda>p. AList.update (fst p) (snd p)) source target"

definition spread :: "jsval \<Rightarrow> jsval \<Rightarrow> (string \<times> jsval) list" where
  "spread a b = assignProps (assignProps [] (ownProps a)) (ownProps b)"

text \<open>
  \<open>Object.assign(target, source)\<close> writes the own properties of the source to the
  target. It raises a \<open>TypeError\<close> when the target is \<open>null\<close> or \<open>undefined\<close>, and
  when the target is a string and the source has a property named \<open>length\<close> or named
  as one of the string's indices (those are read-only on the string's wrapper). For an
  array or another primitive the target is returned as it is: \<open>setState\<close> discards the
  result, and the one failure left out is a source property named \<open>length\<close>, with a
  value that is no array length, written to an array.
\<close>

fun Object_assign :: "jsval \<Rightarrow> jsval \<Rightarrow> error + jsval" where
  "Object_assign JUndefined source = Inl TypeError"
| "Object_assign JNull source = Inl TypeError"
| "Object_assign (JObj ps) source = Inr (JObj (assignProps ps (ownProps source)))"
| "Object_assign (JStr s) source =
     (if \<exists>key \<in> set (map fst (ownProps source)).
           key = ''length'' \<or> key \<in> set (map decimal [0..<length s])
      then Inl TypeError else Inr (JStr s))"
| "Object_assign target source = Inr target"


section \<open>store.ts: the store and its environment\<close>

text \<open>
  \<open>interface StoreState { [sliceName: string]: any }\<close>: the slices of a store by name.
\<close>

type_synonym StoreState = "(string \<times> jsval) list"

text \<open>
  The properties of a value that is a plain object. It is applied where the code uses,
  as a \<open>StoreState\<close>, a value that has passed \<open>isObject\<close> or that \<open>JSON.parse\<close> has
  read from the store's own key.
\<close>

fun asStoreState :: "jsval \<Rightarrow> StoreState" where
  "asStoreState (JObj ps) = ps"
| "asStoreState v = []"

record Store =
  storeName :: string
  internalState :: StoreState
  pubSub :: PubSub

text \<open>
  What is kept under a key of \<open>localStorage\<close>: the empty string, a JSON text, or a
  string that \<open>JSON.parse\<close> rejects. A text under a store's key is taken to be the text
  of an object, as the store writes it.
\<close>

datatype item = EmptyString | Text json | Malformed

text \<open>
  The process: the \<open>Store\<close> objects that exist (a reference to one is its index), the
  static \<open>Store.storeRegistry\<close>, \<open>window.localStorage\<close> when the host has one, the
  callbacks handed to \<open>setTimeout\<close> that have not run yet (each is the closure of
  \<open>setState\<close> over its \<open>this\<close>), and two records of what has happened: the
  \<open>setItem\<close> calls made and the subscriber callbacks called. \<open>setItemError\<close> is the
  text of the exception \<open>setItem\<close> raises, when the backend refuses writes. Console
  output is not recorded.
\<close>

record world =
  instances :: "Store list"
  storeRegistry :: "(string \<times> nat) list"
  localStorage :: "(string \<times> item) list option"
  setItemError :: "string option"
  setItemCalls :: "(string \<times> item) list"
  timers :: "nat list"
  invoked :: "call list"

text \<open>\<open>String(error)\<close>; the texts of the runtime's own errors are abbreviated.\<close>

fun toString :: "error \<Rightarrow> string" where
  "toString (Error message) = ''Error: '' @ message"
| "toString SyntaxError = ''SyntaxError''"
| "toString TypeError = ''TypeError''"

text \<open>\<open>get state(): T { return cloneObject(this._internalState) as T; }\<close>\<close>

definition state :: "Store \<Rightarrow> error + jsval" where
  "state this = cloneObject (JObj (internalState this))"

definition saveStateToLocalStorage :: "nat \<Rightarrow> world \<Rightarrow> world \<times> (error + unit)" where
  "saveStateToLocalStorage this w =
     (case localStorage w of
        None \<Rightarrow> (w, Inr ())
      | Some storage \<Rightarrow>
          (case state (instances w ! this) of
             Inl e \<Rightarrow> (w, Inl (Error (toString e)))
           | Inr st \<Rightarrow>
               (let stateToSave = (case JSON_stringify st of None \<Rightarrow> Malformed | Some t \<Rightarrow> Text t);
                    key = storeName (instances w ! this);
                    w1 = w\<lparr>setItemCalls := setItemCalls w @ [(key, stateToSave)]\<rparr>
                in case setItemError w of
                     Some e \<Rightarrow> (w1, Inl (Error e))
                   | None \<Rightarrow>
                       (w1\<lparr>localStorage := Some (AList.update key stateToSave storage)\<rparr>,
                        Inr ()))))"

definition loadStateFromLocalStorage :: "nat \<Rightarrow> world \<Rightarrow> world" where
  "loadStateFromLocalStorage this w =
     (case localStorage w of
        None \<Rightarrow> w
      | Some storage \<Rightarrow>
          (let s = instances w ! this
           in case map_of storage (storeName s) of
                None \<Rightarrow> w
              | Some EmptyString \<Rightarrow> w
              | Some (Text savedState) \<Rightarrow>
                  w\<lparr>instances := (instances w)
                       [this := s\<lparr>internalState := asStoreState (JSON_parse savedState)\<rparr>]\<rparr>
              | Some Malformed \<Rightarrow>
                  w\<lparr>instances := (instances w)[this := s\<lparr>internalState := []\<rparr>]\<rparr>))"

text \<open>
  A \<open>slice\<close> that is absent or the empty string is falsy: \<open>!slice\<close> holds and
  \<open>if (slice)\<close> takes the else branch.
\<close>

fun truthy :: "string option \<Rightarrow> bool" where
  "truthy None = False"
| "truthy (Some s) = (s \<noteq> [])"

fun asKey :: "string option \<Rightarrow> string" where
  "asKey (Some s) = s"
| "asKey None = []"

text \<open>
  The slice branch of \<open>setState\<close>. Each \<open>cloneObject\<close> and the \<open>Object.assign\<close>
  can raise; \<open>nextState\<close> is computed and not used.
\<close>

definition updateSlice :: "string \<Rightarrow> jsval \<Rightarrow> StoreState \<Rightarrow> error + StoreState" where
  "updateSlice slice value internal =
     (case cloneObject (JObj internal) of
        Inl e \<Rightarrow> Inl e
      | Inr cloned \<Rightarrow>
          (let currentState = getProp (asStoreState cloned) slice
           in case cloneObject currentState of
                Inl e \<Rightarrow> Inl e
              | Inr target \<Rightarrow>
                  (case cloneObject value of
                     Inl e \<Rightarrow> Inl e
                   | Inr source \<Rightarrow>
                       (case Object_assign target source of
                          Inl e \<Rightarrow> Inl e
                        | Inr nextState \<Rightarrow>
                            (case cloneObject value of
                               Inl e \<Rightarrow> Inl e
                             | Inr v \<Rightarrow> Inr (AList.update slice v internal))))))"

text \<open>The three branches of \<open>setState\<close> that compute the new \<open>_internalState\<close>.\<close>

definition nextInternalState ::
  "string option \<Rightarrow> jsval \<Rightarrow> bool option \<Rightarrow> StoreState \<Rightarrow> error + StoreState" where
  "nextInternalState slice value replace internal =
     (if truthy slice then updateSlice (asKey slice) value internal
      else if \<not> truthy slice \<and> replace = Some True then Inr (asStoreState value)
      else Inr (spread (JObj internal) value))"

text \<open>
  \<open>async setState(props)\<close> with \<open>const { slice, value, replace } = props\<close>. The body
  has no \<open>await\<close>, so it runs to its end when called; the outcome is how the returned
  promise settles (\<open>Inl\<close>: rejected). The world returned with an error is the world as
  the raise leaves it.
\<close>

definition setState ::
  "nat \<Rightarrow> string option \<Rightarrow> jsval \<Rightarrow> bool option \<Rightarrow> world \<Rightarrow> world \<times> (error + jsval)" where
  "setState this slice value replace w =
     (if \<not> truthy slice \<and> \<not> isObject value
      then (w, Inl (Error ''non-slice value must be an object''))
      else
        (case nextInternalState slice value replace (internalState (instances w ! this)) of
           Inl e \<Rightarrow> (w, Inl e)
         | Inr st \<Rightarrow>
             (let w1 = w\<lparr>instances :=
                          (instances w)[this := (instances w ! this)\<lparr>internalState := st\<rparr>]\<rparr>;
                  w2 = w1\<lparr>timers := timers w1 @ [this]\<rparr>
              in case saveStateToLocalStorage this w2 of
                   (w3, Inl e) \<Rightarrow> (w3, Inl e)
                 | (w3, Inr u) \<Rightarrow> (w3, state (instances w3 ! this)))))"

text \<open>\<open>this._pubSub.publish(this.state, this.state)\<close>: the getter is read twice.\<close>

definition notify :: "Store \<Rightarrow> call list \<times> (error + unit)" where
  "notify this =
     (case state this of
        Inl e \<Rightarrow> ([], Inl e)
      | Inr currentState \<Rightarrow>
          (case state this of
             Inl e \<Rightarrow> ([], Inl e)
           | Inr nextState \<Rightarrow> publish currentState nextState (pubSub this)))"

text \<open>
  The scheduler runs the oldest pending \<open>setTimeout\<close> callback, on the store as it is
  then.
\<close>

definition runTimer :: "world \<Rightarrow> world \<times> (error + unit)" where
  "runTimer w =
     (case timers w of
        [] \<Rightarrow> (w, Inr ())
      | this # pending \<Rightarrow>
          (case notify (instances w ! this) of
             (calls, outcome) \<Rightarrow>
               (w\<lparr>timers := pending, invoked := invoked w @ calls\<rparr>, outcome)))"

text \<open>
  \<open>createSlice(slice)\<close> with \<open>const { name, initialState } = slice\<close>; an omitted
  \<open>initialState\<close> is \<open>undefined\<close>, and \<open>initialState ?? {}\<close> replaces \<open>undefined\<close>
  and \<open>null\<close>.
\<close>

fun nullish :: "jsval \<Rightarrow> bool" where
  "nullish JUndefined = True"
| "nullish JNull = True"
| "nullish v = False"

fun asString :: "jsval \<Rightarrow> string" where
  "asString (JStr s) = s"
| "asString v = []"

definition createSlice :: "nat \<Rightarrow> jsval \<Rightarrow> jsval \<Rightarrow> world \<Rightarrow> world \<times> (error + jsval)" where
  "createSlice this name initialState w =
     (if \<not> isString name then (w, Inl (Error ''name must be a string''))
      else
        (let s = instances w ! this;
             s1 = s\<lparr>internalState :=
                      AList.update (asString name)
                        (if nullish initialState then JObj [] else initialState)
                        (internalState s)\<rparr>;
             w1 = w\<lparr>instances := (instances w)[this := s1]\<rparr>
         in case notify s1 of
              (calls, Inl e) \<Rightarrow> (w1\<lparr>invoked := invoked w1 @ calls\<rparr>, Inl e)
            | (calls, Inr u) \<Rightarrow>
                (let w2 = w1\<lparr>invoked := invoked w1 @ calls\<rparr>
                 in case saveStateToLocalStorage this w2 of
                      (w3, Inl e) \<Rightarrow> (w3, Inl e)
                    | (w3, Inr u) \<Rightarrow> (w3, state (instances w3 ! this)))))"

text \<open>
  The static \<open>storeRegistry\<close> is a plain object, and \<open>Store.storeRegistry[name]\<close>
  finds what the object inherits when it has no entry of its own under the name. The
  members of \<open>Object.prototype\<close>:
\<close>

definition Object_prototype_names :: "string list" where
  "Object_prototype_names =
     [''constructor'', ''hasOwnProperty'', ''isPrototypeOf'', ''propertyIsEnumerable'',
      ''toLocaleString'', ''toString'', ''valueOf'', ''__proto__'',
      ''__defineGetter__'', ''__defineSetter__'', ''__lookupGetter__'', ''__lookupSetter__'']"

text \<open>
  \<open>new Store(props)\<close> with \<open>const { storeName, initialState, replace } = props\<close>; the
  default \<open>props\<close> is \<open>new_Store (Some ''appState'') (JObj []) (Some False)\<close>. When the
  name is registered, the object under construction is dropped and the registered one
  is returned; the promise of its \<open>setState\<close> is dropped too, whichever way it settles.
  The dropped object is not added to \<open>instances\<close>: nothing refers to it. When the name
  is not registered and is a member of \<open>Object.prototype\<close>, \<open>existingStore\<close> is that
  member, which is truthy and has no \<open>setState\<close>: the call raises a \<open>TypeError\<close>.
\<close>

definition new_Store ::
  "string option \<Rightarrow> jsval \<Rightarrow> bool option \<Rightarrow> world \<Rightarrow> world \<times> (error + nat)" where
  "new_Store storeName' initialState replace w =
     (if \<not> isObject initialState then (w, Inl (Error ''initial state must be an object''))
      else
        (let name = (case storeName' of None \<Rightarrow> ''appState'' | Some n \<Rightarrow> n);
             existingStore = map_of (storeRegistry w) name
         in case cloneObject initialState of
              Inl e \<Rightarrow> (w, Inl e)
            | Inr cloned \<Rightarrow>
                (case existingStore of
                   Some existing \<Rightarrow>
                     (fst (setState existing None initialState replace w), Inr existing)
                 | None \<Rightarrow>
                     if name \<in> set Object_prototype_names then (w, Inl TypeError)
                     else
                       (let this = length (instances w);
                            w1 = w\<lparr>instances := instances w @
                                     [\<lparr>storeName = name,
                                       internalState = asStoreState cloned,
                                       pubSub = \<lparr>callbackList = []\<rparr>\<rparr>],
                                   storeRegistry := AList.update name this (storeRegistry w)\<rparr>
                        in (loadStateFromLocalStorage this w1, Inr this)))))"

section \<open>Objects by reference\<close>

text \<open>
  The definitions above take a value for its contents, which is what a statement about
  the state right after a call needs. Whether the caller and the store hold the same
  object needs references: here an object or array is a cell of a heap, a value is a
  primitive or the address of a cell, and a write to a property changes the cell for
  everyone who holds its address.
\<close>

datatype rvalue = RUndefined | RNull | RBool bool | RNum number | RStr string | RRef nat

datatype cell = ObjCell "(string \<times> rvalue) list" | ArrCell "rvalue list"

type_synonym heap = "cell list"

text \<open>
  The contents of a value, followed through the heap to the given depth; \<open>None\<close> when
  the depth does not suffice or an address is not in the heap.
\<close>

fun contents :: "nat \<Rightarrow> heap \<Rightarrow> rvalue \<Rightarrow> jsval option" where
  "contents 0 h v = None"
| "contents (Suc n) h RUndefined = Some JUndefined"
| "contents (Suc n) h RNull = Some JNull"
| "contents (Suc n) h (RBool b) = Some (JBool b)"
| "contents (Suc n) h (RNum x) = Some (JNum x)"
| "contents (Suc n) h (RStr s) = Some (JStr s)"
| "contents (Suc n) h (RRef a) =
     (if a < length h then
        (case h ! a of
           ObjCell ps \<Rightarrow>
             map_option JObj
               (those (map (\<lambda>p. map_option (Pair (fst p)) (contents n h (snd p))) ps))
         | ArrCell xs \<Rightarrow> map_option JArr (those (map (contents n h) xs)))
      else None)"

text \<open>New cells for a value, as \<open>JSON.parse\<close> makes them; the result is the root.\<close>

fun allocate :: "jsval \<Rightarrow> heap \<Rightarrow> heap \<times> rvalue" where
  "allocate JUndefined h = (h, RUndefined)"
| "allocate JNull h = (h, RNull)"
| "allocate (JBool b) h = (h, RBool b)"
| "allocate (JNum x) h = (h, RNum x)"
| "allocate (JStr s) h = (h, RStr s)"
| "allocate (JArr xs) h =
     (let r = fold (\<lambda>x acc. let y = allocate x (fst acc) in (fst y, snd acc @ [snd y]))
                xs (h, [])
      in (fst r @ [ArrCell (snd r)], RRef (length (fst r))))"
| "allocate (JObj ps) h =
     (let r = fold (\<lambda>p acc. let y = allocate (snd p) (fst acc)
                             in (fst y, snd acc @ [(fst p, snd y)]))
                ps (h, [])
      in (fst r @ [ObjCell (snd r)], RRef (length (fst r))))"

text \<open>
  \<open>cloneObject\<close> on a reference: \<open>JSON.stringify\<close> reads the contents (a chain of more
  addresses than the heap has cells goes through a cycle, on which it raises a
  \<open>TypeError\<close>), and \<open>JSON.parse\<close> builds new cells.
\<close>

definition cloneObject_at :: "heap \<Rightarrow> rvalue \<Rightarrow> error + (heap \<times> rvalue)" where
  "cloneObject_at h v =
     (case contents (Suc (length h)) h v of
        None \<Rightarrow> Inl TypeError
      | Some obj \<Rightarrow>
          (case cloneObject obj of
             Inl e \<Rightarrow> Inl e
           | Inr cloned \<Rightarrow> Inr (allocate cloned h)))"

fun isObject_at :: "heap \<Rightarrow> rvalue \<Rightarrow> bool" where
  "isObject_at h (RRef a) = (a < length h \<and> (case h ! a of ObjCell ps \<Rightarrow> True | ArrCell xs \<Rightarrow> False))"
| "isObject_at h v = False"

text \<open>The own enumerable properties of a value, as \<open>ownProps\<close> gives them.\<close>

fun ownProps_at :: "heap \<Rightarrow> rvalue \<Rightarrow> (string \<times> rvalue) list" where
  "ownProps_at h (RRef a) =
     (if a < length h then
        (case h ! a of
           ObjCell ps \<Rightarrow> ps
         | ArrCell xs \<Rightarrow> zip (map decimal [0..<length xs]) xs)
      else [])"
| "ownProps_at h (RStr s) = zip (map decimal [0..<length s]) (map (\<lambda>c. RStr [c]) s)"
| "ownProps_at h v = []"

text \<open>\<open>obj[key]\<close> and \<open>obj[key] = v\<close> on the plain object at an address.\<close>

definition getProp_at :: "heap \<Rightarrow> rvalue \<Rightarrow> string \<Rightarrow> rvalue" where
  "getProp_at h obj key =
     (if isObject_at h obj
      then (case map_of (ownProps_at h obj) key of None \<Rightarrow> RUndefined | Some v \<Rightarrow> v)
      else RUndefined)"

fun setProp_at :: "heap \<Rightarrow> rvalue \<Rightarrow> string \<Rightarrow> rvalue \<Rightarrow> heap" where
  "setProp_at h (RRef a) key v =
     (if a < length h then
        (case h ! a of
           ObjCell ps \<Rightarrow> h[a := ObjCell (AList.update key v ps)]
         | ArrCell xs \<Rightarrow> h)
      else h)"
| "setProp_at h obj key v = h"

text \<open>
  A process: the heap, and the \<open>_internalState\<close> field of one store. The functions
  below are the statements of the getter, of \<open>setState\<close> and of \<open>createSlice\<close> that
  read or write \<open>_internalState\<close>; scheduling and persistence are as above and hold
  no reference to an object.
\<close>

record process =
  heap :: heap
  internalState_at :: rvalue

text \<open>The getter: the new heap and the reference handed to the caller.\<close>

definition state_at :: "process \<Rightarrow> error + (process \<times> rvalue)" where
  "state_at p =
     (case cloneObject_at (heap p) (internalState_at p) of
        Inl e \<Rightarrow> Inl e
      | Inr (h, cloned) \<Rightarrow> Inr (p\<lparr>heap := h\<rparr>, cloned))"

text \<open>
  In the slice branch the target of \<open>Object.assign\<close> is a clone nobody else holds:
  only whether the call raises is kept, as \<open>Object_assign\<close> decides it on the
  contents.
\<close>

definition updateSlice_at :: "string \<Rightarrow> rvalue \<Rightarrow> process \<Rightarrow> error + process" where
  "updateSlice_at slice value p =
     (case cloneObject_at (heap p) (internalState_at p) of
        Inl e \<Rightarrow> Inl e
      | Inr (h1, cloned) \<Rightarrow>
          (let currentState = getProp_at h1 cloned slice
           in case cloneObject_at h1 currentState of
                Inl e \<Rightarrow> Inl e
              | Inr (h2, target) \<Rightarrow>
                  (case cloneObject_at h2 value of
                     Inl e \<Rightarrow> Inl e
                   | Inr (h3, source) \<Rightarrow>
                       (case (contents (Suc (length h3)) h3 target,
                              contents (Suc (length h3)) h3 source) of
                          (Some t, Some s) \<Rightarrow>
                            (case Object_assign t s of
                               Inl e \<Rightarrow> Inl e
                             | Inr nextState \<Rightarrow>
                                 (case cloneObject_at h3 value of
                                    Inl e \<Rightarrow> Inl e
                                  | Inr (h4, v) \<Rightarrow>
                                      Inr (p\<lparr>heap := setProp_at h4 (internalState_at p) slice v\<rparr>)))
                        | _ \<Rightarrow> Inl TypeError))))"

definition setState_at ::
  "string option \<Rightarrow> rvalue \<Rightarrow> bool option \<Rightarrow> process \<Rightarrow> error + process" where
  "setState_at slice value replace p =
     (if \<not> truthy slice \<and> \<not> isObject_at (heap p) value
      then Inl (Error ''non-slice value must be an object'')
      else if truthy slice then updateSlice_at (asKey slice) value p
      else if \<not> truthy slice \<and> replace = Some True then Inr (p\<lparr>internalState_at := value\<rparr>)
      else
        Inr (p\<lparr>heap := heap p @
                   [ObjCell (fold (\<lambda>q. AList.update (fst q) (snd q))
                               (ownProps_at (heap p) (internalState_at p) @
                                ownProps_at (heap p) value) [])],
               internalState_at := RRef (length (heap p))\<rparr>))"

definition createSlice_at :: "string \<Rightarrow> rvalue \<Rightarrow> process \<Rightarrow> process" where
  "createSlice_at name initialState p =
     (if initialState = RUndefined \<or> initialState = RNull
      then p\<lparr>heap := setProp_at (heap p @ [ObjCell []]) (internalState_at p) name
                        (RRef (length (heap p)))\<rparr>
      else p\<lparr>heap := setProp_at (heap p) (internalState_at p) name initialState\<rparr>)"

text \<open>What a caller sees when it looks into a value it holds.\<close>

definition observe :: "process \<Rightarrow> rvalue \<Rightarrow> jsval option" where
  "observe p v = contents (Suc (length (heap p))) (heap p) v"

section \<open>Example stores\<close>

text \<open>
  A host with \<open>localStorage\<close> and three stores: one with the slice \<open>x = {a: 1}\<close>, one
  with the state \<open>{b: 2}\<close> and a subscriber (callback 7) that selects the slice \<open>b\<close>,
  and one whose only slice has the empty string as its name.
\<close>

definition num :: "int \<Rightarrow> jsval" where
  "num i = JNum (Finite i)"

definition select_b :: "jsval \<Rightarrow> error + jsval" where
  "select_b snapshot = Inr (getProp (asStoreState snapshot) ''b'')"

text \<open>A callback that returns, and one that throws, whatever the argument.\<close>

definition returning :: "nat \<Rightarrow> callback" where
  "returning r = Callback r (\<lambda>v. None)"


definition sliced_store :: Store where
  "sliced_store =
     \<lparr>storeName = ''sliced'',
      internalState = [(''x'', JObj [(''a'', num 1)])],
      pubSub = \<lparr>callbackList = []\<rparr>\<rparr>"

definition app_store :: Store where
  "app_store =
     \<lparr>storeName = ''appState'',
      internalState = [(''b'', num 2)],
      pubSub = \<lparr>callbackList = [\<lparr>callback = returning 7, config = select_b\<rparr>]\<rparr>\<rparr>"

definition unnamed_store :: Store where
  "unnamed_store =
     \<lparr>storeName = ''unnamed'',
      internalState = [([], JObj [(''a'', num 1)])],
      pubSub = \<lparr>callbackList = []\<rparr>\<rparr>"

definition browser :: world where
  "browser =
     \<lparr>instances = [sliced_store, app_store, unnamed_store],
      storeRegistry = [(''sliced'', 0), (''appState'', 1), (''unnamed'', 2)],
      localStorage = Some [],
      setItemError = None,
      setItemCalls = [],
      timers = [],
      invoked = []\<rparr>"

definition select_a :: "jsval \<Rightarrow> error + jsval" where
  "select_a snapshot = Inr (getProp (asStoreState snapshot) ''a'')"


text \<open>Callback 7 is subscribed twice, with two selectors, and callback 8 once.\<close>

definition three_subscriptions :: PubSub where
  "three_subscriptions =
     \<lparr>callbackList =
        [\<lparr>callback = returning 7, config = select_a\<rparr>,
         \<lparr>callback = returning 8, config = select_b\<rparr>,
         \<lparr>callback = returning 7, config = select_b\<rparr>]\<rparr>"



text \<open>
  A caller and a store, by reference: cell 0 is the store's state \<open>{b: 2}\<close>, cell 1 is
  an object \<open>{a: 1}\<close> the caller holds, cell 2 is an object \<open>{n: 1}\<close> the caller holds
  and cell 3 is the caller's \<open>{user: <cell 2>}\<close>.
\<close>

definition caller_process :: process where
  "caller_process =
     \<lparr>heap = [ObjCell [(''b'', RNum (Finite 2))],
              ObjCell [(''a'', RNum (Finite 1))],
              ObjCell [(''n'', RNum (Finite 1))],
              ObjCell [(''user'', RRef 2)]],
      internalState_at = RRef 0\<rparr>"

text \<open>What a read of \<open>store.state\<close> shows (\<open>None\<close> when the getter raises).\<close>

definition state_seen :: "process \<Rightarrow> jsval option" where
  "state_seen p =
     (case state_at p of
        Inl e \<Rightarrow> None
      | Inr (p', snapshot) \<Rightarrow> observe p' snapshot)"

text \<open>The caller's statement \<open>obj[key] = v\<close> on an object it holds.\<close>

definition caller_writes :: "rvalue \<Rightarrow> string \<Rightarrow> rvalue \<Rightarrow> process \<Rightarrow> process" where
  "caller_writes obj key v p = p\<lparr>heap := setProp_at (heap p) obj key v\<rparr>"

section \<open>Lemmas: serialization and cloning\<close>

lemma stringify_parse: "JSON_stringify (JSON_parse j) = Some j"
proof (induction j)
  case (JsArr js)
  then have "map (\<lambda>x. case JSON_stringify x of None \<Rightarrow> JsNull | Some j \<Rightarrow> j) (map JSON_parse js) = js"
    by (induction js) auto
  then show ?case by simp
next
  case (JsObj ms)
  then have "concat (map (\<lambda>p. case JSON_stringify (snd p) of None \<Rightarrow> [] | Some j \<Rightarrow> [(fst p, j)])
                (map (\<lambda>m. (fst m, JSON_parse (snd m))) ms)) = ms"
  proof (induction ms)
    case Nil
    then show ?case by simp
  next
    case (Cons m ms)
    obtain k j where m: "m = (k, j)" by (cases m)
    have "JSON_stringify (JSON_parse j) = Some j"
      using Cons.prems [of m j] by (simp add: m)
    moreover have "concat (map (\<lambda>p. case JSON_stringify (snd p) of None \<Rightarrow> [] | Some j \<Rightarrow> [(fst p, j)])
                (map (\<lambda>m. (fst m, JSON_parse (snd m))) ms)) = ms"
      using Cons.IH Cons.prems by auto
    ultimately show ?case by (simp add: m)
  qed
  then show ?case by simp
qed simp_all

lemma cloneObject_isEqual: "cloneObject v = Inr c \<Longrightarrow> isEqual c v"
  by (auto simp: cloneObject_def isEqual_def stringify_parse split: option.splits)

lemma isEqual_structurallyEqual: "isEqual a b \<Longrightarrow> structurallyEqual a b"
  by (simp add: isEqual_def structurallyEqual_def)

lemma isObject_iff: "isObject v \<longleftrightarrow> (\<exists>ps. v = JObj ps)"
  by (cases v) simp_all

lemma cloneObject_JObj: "\<exists>qs. cloneObject (JObj ps) = Inr (JObj qs)"
  by (simp add: cloneObject_def)

lemma state_object: "\<exists>qs. state s = Inr (JObj qs)"
  by (simp add: state_def cloneObject_def)

text \<open>A property that serializes is found, serialized, in the text of the object.\<close>

lemma map_of_members:
  "map_of ps x = Some v \<Longrightarrow> JSON_stringify v = Some j \<Longrightarrow>
   map_of (concat (map (\<lambda>p. case JSON_stringify (snd p) of None \<Rightarrow> [] | Some j \<Rightarrow> [(fst p, j)]) ps)) x = Some j"
proof (induction ps)
  case Nil
  then show ?case by simp
next
  case (Cons p ps)
  show ?case
  proof (cases "fst p = x")
    case True
    with Cons.prems show ?thesis by (cases p) simp
  next
    case False
    with Cons show ?thesis by (cases p) (auto split: option.splits)
  qed
qed

lemma map_of_parsed:
  "map_of (map (\<lambda>m. (fst m, JSON_parse (snd m))) ms) x = map_option JSON_parse (map_of ms x)"
  by (induction ms) auto

lemma cloned_property:
  assumes "map_of ps x = Some v" and "JSON_stringify v = Some j"
    and "cloneObject (JObj ps) = Inr c"
  shows "getProp (asStoreState c) x = JSON_parse j"
  using assms map_of_members [OF assms(1,2)]
  by (auto simp: cloneObject_def getProp_def map_of_parsed)

lemma state_property:
  assumes "map_of (internalState s) x = Some v" and "JSON_stringify v = Some j"
  shows "\<exists>st. state s = Inr (JObj st) \<and> map_of st x = Some (JSON_parse j)"
  using map_of_members [OF assms]
  by (simp add: state_def cloneObject_def map_of_parsed)

lemma updateSlice_object:
  assumes "map_of internal x = Some (JObj cur)"
  shows "\<exists>c. cloneObject (JObj v) = Inr c \<and> updateSlice x (JObj v) internal = Inr (AList.update x c internal)"
proof -
  obtain cloned where cl: "cloneObject (JObj internal) = Inr cloned"
    using cloneObject_JObj by blast
  obtain j where j: "JSON_stringify (JObj cur) = Some j" by simp
  have cs: "getProp (asStoreState cloned) x = JSON_parse j"
    using cloned_property [OF assms j cl] .
  have "isObject (JSON_parse j)" using j by auto
  then obtain tps where t: "JSON_parse j = JObj tps" by (auto simp: isObject_iff)
  obtain tq where tq: "cloneObject (JObj tps) = Inr (JObj tq)"
    using cloneObject_JObj by blast
  obtain c where c: "cloneObject (JObj v) = Inr c"
    using cloneObject_JObj by blast
  show ?thesis
    by (simp add: updateSlice_def cl cs t tq c)
qed

lemma save_instances: "instances (fst (saveStateToLocalStorage this w)) = instances w"
  by (simp add: saveStateToLocalStorage_def Let_def split: option.splits sum.splits)

lemma save_invoked: "invoked (fst (saveStateToLocalStorage this w)) = invoked w"
  by (simp add: saveStateToLocalStorage_def Let_def split: option.splits sum.splits)

lemma save_registry: "storeRegistry (fst (saveStateToLocalStorage this w)) = storeRegistry w"
  by (simp add: saveStateToLocalStorage_def Let_def split: option.splits sum.splits)

text \<open>What \<open>setState\<close> leaves in \<open>instances\<close>, whichever way the promise settles.\<close>

lemma setState_instances:
  "instances (fst (setState this slice value replace w)) =
     (if \<not> truthy slice \<and> \<not> isObject value then instances w
      else case nextInternalState slice value replace (internalState (instances w ! this)) of
             Inl e \<Rightarrow> instances w
           | Inr st \<Rightarrow> (instances w)[this := (instances w ! this)\<lparr>internalState := st\<rparr>])"
proof -
  have *: "instances (fst (case saveStateToLocalStorage this w2 of
                 (w3, Inl e) \<Rightarrow> (w3, Inl e)
               | (w3, Inr u) \<Rightarrow> (w3, state (instances w3 ! this)))) = instances w2" for w2
    using save_instances [of this w2]
    by (cases "saveStateToLocalStorage this w2") (auto split: sum.splits)
  show ?thesis
    by (simp add: setState_def Let_def * split: sum.splits)
qed


lemma publish_same: "fst (forEach_item snapshot snapshot items) = []"
  by (induction items) (simp_all add: isEqual_def split: sum.splits)

lemma publish_same_returns:
  "(\<And>item. item \<in> set items \<Longrightarrow> \<exists>v. config item snapshot = Inr v) \<Longrightarrow>
   forEach_item snapshot snapshot items = ([], Inr ())"
proof (induction items)
  case Nil
  then show ?case by simp
next
  case (Cons item items)
  obtain v where "config item snapshot = Inr v" using Cons.prems [of item] by auto
  moreover have "forEach_item snapshot snapshot items = ([], Inr ())"
    using Cons by simp
  ultimately show ?case by (simp add: isEqual_def)
qed

lemma notify_nothing: "fst (notify s) = []"
proof -
  obtain qs where "state s = Inr (JObj qs)" using state_object by blast
  then show ?thesis by (simp add: notify_def publish_def publish_same)
qed

lemma setState_result:
  "setState this slice value replace w =
     (if \<not> truthy slice \<and> \<not> isObject value
      then (w, Inl (Error ''non-slice value must be an object''))
      else case nextInternalState slice value replace (internalState (instances w ! this)) of
             Inl e \<Rightarrow> (w, Inl e)
           | Inr st \<Rightarrow>
               (case saveStateToLocalStorage this
                       (w\<lparr>instances := (instances w)[this := (instances w ! this)\<lparr>internalState := st\<rparr>],
                          timers := timers w @ [this]\<rparr>) of
                  (w3, Inl e) \<Rightarrow> (w3, Inl e)
                | (w3, Inr u) \<Rightarrow> (w3, state (instances w3 ! this))))"
  by (simp add: setState_def Let_def split: sum.splits)

lemma setState_invoked: "invoked (fst (setState this slice value replace w)) = invoked w"
proof -
  have *: "invoked (fst (case saveStateToLocalStorage this w2 of
                 (w3, Inl e) \<Rightarrow> (w3, Inl e)
               | (w3, Inr u) \<Rightarrow> (w3, state (instances w3 ! this)))) = invoked w2" for w2
    using save_invoked [of this w2]
    by (cases "saveStateToLocalStorage this w2") (auto split: sum.splits)
  show ?thesis
    by (simp add: setState_result * split: sum.splits)
qed

lemma createSlice_invoked: "invoked (fst (createSlice this name initialState w)) = invoked w"
proof (cases "isString name")
  case False
  then show ?thesis by (simp add: createSlice_def)
next
  case True
  have *: "invoked (fst (case saveStateToLocalStorage this w2 of
                 (w3, Inl e) \<Rightarrow> (w3, Inl e)
               | (w3, Inr u) \<Rightarrow> (w3, state (instances w3 ! this)))) = invoked w2" for w2
    using save_invoked [of this w2]
    by (cases "saveStateToLocalStorage this w2") (auto split: sum.splits)
  obtain outcome where n: "notify ((instances w ! this)
                    \<lparr>internalState :=
                       AList.update (asString name)
                         (if nullish initialState then JObj [] else initialState)
                         (internalState (instances w ! this))\<rparr>) = ([], outcome)"
    using notify_nothing by (metis prod.collapse)
  show ?thesis
    by (cases outcome) (simp_all add: createSlice_def Let_def True n *)
qed

lemma runTimer_invoked: "invoked (fst (runTimer w)) = invoked w"
proof (cases "timers w")
  case Nil
  then show ?thesis by (simp add: runTimer_def)
next
  case (Cons this pending)
  obtain outcome where "notify (instances w ! this) = ([], outcome)"
    using notify_nothing by (metis prod.collapse)
  then show ?thesis by (simp add: runTimer_def Cons)
qed

section \<open>Lemmas: structural equality\<close>

lemma set_members:
  "set (members ps) = {(k, j). \<exists>v. (k, v) \<in> set ps \<and> JSON_stringify v = Some j}"
  by (induction ps) (auto split: option.splits)

lemma keys_members: "fst ` set (members ps) \<subseteq> fst ` set ps"
  by (auto simp: set_members intro: rev_image_eqI)

lemma distinct_members: "distinct (map fst ps) \<Longrightarrow> distinct (map fst (members ps))"
proof (induction ps)
  case Nil
  then show ?case by simp
next
  case (Cons p ps)
  have "fst p \<notin> fst ` set (members ps)"
    using Cons.prems keys_members [of ps] by auto
  with Cons show ?case by (auto split: option.splits)
qed

lemma filter_key_single:
  "distinct (map fst xs) \<Longrightarrow> k \<in> set xs \<Longrightarrow> filter (\<lambda>x. fst k = fst x) xs = [k]"
proof (induction xs)
  case Nil
  then show ?case by simp
next
  case (Cons x xs)
  show ?case
  proof (cases "k = x")
    case True
    have "filter (\<lambda>y. fst x = fst y) xs = []"
      using Cons.prems(1) by (auto simp: filter_empty_conv intro: rev_image_eqI)
    with True show ?thesis by simp
  next
    case False
    with Cons.prems have kin: "k \<in> set xs" by simp
    then have "fst k \<noteq> fst x" using Cons.prems(1) by (auto intro: rev_image_eqI)
    with Cons kin show ?thesis by simp
  qed
qed

text \<open>Sorting by name gives one list for every listing of the same members.\<close>

lemma sort_key_same_set:
  fixes xs ys :: "(string \<times> 'a) list"
  assumes "distinct (map fst xs)" and "distinct (map fst ys)" and "set xs = set ys"
  shows "sort_key fst xs = sort_key fst ys"
proof (rule properties_for_sort_key)
  have dx: "distinct xs" and dy: "distinct ys"
    using assms(1,2) by (auto simp: distinct_map)
  then have m: "mset xs = mset ys" using assms(3) by (simp add: set_eq_iff_mset_eq_distinct)
  then show "mset (sort_key fst ys) = mset xs" by simp
  show "sorted (map fst (sort_key fst ys))" by simp
  fix k assume "k \<in> set (sort_key fst ys)"
  then have ky: "k \<in> set ys" by simp
  have "mset (map fst (sort_key fst ys)) = mset (map fst ys)" by simp
  then have "distinct (map fst (sort_key fst ys))"
    using assms(2) by (metis mset_eq_imp_distinct_iff)
  then have "filter (\<lambda>x. fst k = fst x) (sort_key fst ys) = [k]"
    using ky by (intro filter_key_single) simp_all
  moreover have "filter (\<lambda>x. fst k = fst x) xs = [k]"
    using ky assms(1,3) by (intro filter_key_single) simp_all
  ultimately show "filter (\<lambda>x. fst k = fst x) (sort_key fst ys) = filter (\<lambda>x. fst k = fst x) xs"
    by simp
qed

lemma structurallyEqual_same_properties:
  assumes "distinct (map fst ps)" and "distinct (map fst qs)" and "map_of ps = map_of qs"
  shows "structurallyEqual (JObj ps) (JObj qs)"
proof -
  have s: "set ps = set qs" using assms by (simp add: map_of_inject_set)
  let ?f = "\<lambda>m :: string \<times> json. (fst m, canonical (snd m))"
  have "set (map ?f (members ps)) = set (map ?f (members qs))"
    by (simp add: set_members s)
  moreover have "distinct (map fst (map ?f (members ps)))" "distinct (map fst (map ?f (members qs)))"
    using distinct_members [OF assms(1)] distinct_members [OF assms(2)] by (simp_all add: comp_def)
  ultimately have "sort_key fst (map ?f (members ps)) = sort_key fst (map ?f (members qs))"
    by (intro sort_key_same_set)
  then show ?thesis
    by (simp add: structurallyEqual_def)
qed

lemma structurallyEqual_trans:
  "structurallyEqual a b \<Longrightarrow> structurallyEqual b c \<Longrightarrow> structurallyEqual a c"
  by (simp add: structurallyEqual_def)

section \<open>Lemmas: objects\<close>

lemma map_of_assignProps:
  "distinct (map fst source) \<Longrightarrow>
   map_of (assignProps target source) = map_of target ++ map_of source"
proof (induction source arbitrary: target)
  case Nil
  then show ?case by (simp add: assignProps_def)
next
  case (Cons p ps)
  obtain k v where p: "p = (k, v)" by (cases p)
  have notin: "map_of ps k = None"
    using Cons.prems by (simp add: p map_of_eq_None_iff)
  have "map_of (assignProps target (p # ps)) = map_of (assignProps (AList.update k v target) ps)"
    by (simp add: assignProps_def p)
  also have "\<dots> = map_of (AList.update k v target) ++ map_of ps"
    using Cons.IH [of "AList.update k v target"] Cons.prems by simp
  also have "\<dots> = map_of target ++ map_of (p # ps)"
  proof (rule ext)
    fix x
    show "(map_of (AList.update k v target) ++ map_of ps) x = (map_of target ++ map_of (p # ps)) x"
      using notin by (auto simp: p update_conv' map_add_def split: option.splits)
  qed
  finally show ?case .
qed

lemma distinct_assignProps:
  "distinct (map fst target) \<Longrightarrow> distinct (map fst (assignProps target source))"
proof (induction source arbitrary: target)
  case Nil
  then show ?case by (simp add: assignProps_def)
next
  case (Cons p ps)
  have "distinct (map fst (AList.update (fst p) (snd p) target))"
    using Cons.prems by (rule distinct_update)
  from Cons.IH [OF this] show ?case by (simp add: assignProps_def)
qed

lemma map_of_spread:
  assumes "distinct (map fst m)" and "distinct (map fst v)"
  shows "map_of (spread (JObj m) (JObj v)) = map_of m ++ map_of v"
proof -
  have "map_of (assignProps [] m) = map_of m"
    using map_of_assignProps [OF assms(1), of "[]"] by simp
  then show ?thesis
    using map_of_assignProps [OF assms(2), of "assignProps [] m"]
    by (simp add: spread_def)
qed



lemma forEach_item_references:
  "fst ` set (fst (forEach_item currentState nextState items))
     \<subseteq> (\<lambda>item. reference (callback item)) ` set items"
  by (induction items) (auto simp: Let_def split: sum.splits option.splits if_splits)

lemma setState_registry:
  "storeRegistry (fst (setState this slice value replace w)) = storeRegistry w"
proof -
  have *: "storeRegistry (fst (case saveStateToLocalStorage this w2 of
                 (w3, Inl e) \<Rightarrow> (w3, Inl e)
               | (w3, Inr u) \<Rightarrow> (w3, state (instances w3 ! this)))) = storeRegistry w2" for w2
    using save_registry [of this w2]
    by (cases "saveStateToLocalStorage this w2") (auto split: sum.splits)
  show ?thesis
    by (simp add: setState_result * split: sum.splits)
qed

lemma setState_length:
  "length (instances (fst (setState this slice value replace w))) = length (instances w)"
  by (simp add: setState_instances split: sum.splits)

section \<open>Lemmas: objects by reference\<close>

lemma fold_allocate_elements:
  assumes "\<And>x h. x \<in> set xs \<Longrightarrow> \<exists>h2. fst (allocate x h) = h @ h2"
  shows "\<exists>h2. fst (fold (\<lambda>x acc. let y = allocate x (fst acc) in (fst y, snd acc @ [snd y]))
                     xs (h0, rs)) = h0 @ h2"
  using assms
proof (induction xs arbitrary: h0 rs)
  case Nil
  then show ?case by simp
next
  case (Cons y ys)
  obtain h1 where h1: "fst (allocate y h0) = h0 @ h1"
    using Cons.prems [of y h0] by auto
  obtain h2 where "fst (fold (\<lambda>x acc. let y = allocate x (fst acc) in (fst y, snd acc @ [snd y])) ys
                      (h0 @ h1, rs @ [snd (allocate y h0)])) = (h0 @ h1) @ h2"
    using Cons.IH [of "h0 @ h1" "rs @ [snd (allocate y h0)]"] Cons.prems by auto
  then show ?case by (simp add: Let_def h1)
qed

lemma fold_allocate_properties:
  assumes "\<And>q h. q \<in> set ps \<Longrightarrow> \<exists>h2. fst (allocate (snd q) h) = h @ h2"
  shows "\<exists>h2. fst (fold (\<lambda>p acc. let y = allocate (snd p) (fst acc)
                                  in (fst y, snd acc @ [(fst p, snd y)]))
                     ps (h0, rs)) = h0 @ h2"
  using assms
proof (induction ps arbitrary: h0 rs)
  case Nil
  then show ?case by simp
next
  case (Cons q qs)
  obtain h1 where h1: "fst (allocate (snd q) h0) = h0 @ h1"
    using Cons.prems [of q h0] by auto
  obtain h2 where "fst (fold (\<lambda>p acc. let y = allocate (snd p) (fst acc)
                                      in (fst y, snd acc @ [(fst p, snd y)])) qs
                      (h0 @ h1, rs @ [(fst q, snd (allocate (snd q) h0))])) = (h0 @ h1) @ h2"
    using Cons.IH [of "h0 @ h1" "rs @ [(fst q, snd (allocate (snd q) h0))]"] Cons.prems by auto
  then show ?case by (simp add: Let_def h1)
qed

lemma allocate_extends: "\<exists>h2. fst (allocate t h) = h @ h2"
proof (induction t arbitrary: h)
  case (JArr xs)
  then have "\<exists>h2. fst (fold (\<lambda>x acc. let y = allocate x (fst acc) in (fst y, snd acc @ [snd y]))
                     xs (h, [])) = h @ h2"
    by (intro fold_allocate_elements) auto
  then show ?case by (auto simp: Let_def)
next
  case (JObj ps)
  have "\<exists>h2. fst (allocate (snd q) h') = h' @ h2" if "q \<in> set ps" for q h'
    using JObj.IH [of q "snd q" h'] that by (cases q) auto
  then have "\<exists>h2. fst (fold (\<lambda>p acc. let y = allocate (snd p) (fst acc)
                                  in (fst y, snd acc @ [(fst p, snd y)]))
                     ps (h, [])) = h @ h2"
    by (intro fold_allocate_properties) auto
  then show ?case by (auto simp: Let_def)
qed simp_all

lemma allocate_new: "snd (allocate t h) = RRef a \<Longrightarrow> length h \<le> a"
proof (cases t)
  case (JArr xs)
  assume a: "snd (allocate t h) = RRef a"
  obtain h2 where "fst (fold (\<lambda>x acc. let y = allocate x (fst acc) in (fst y, snd acc @ [snd y]))
                     xs (h, [])) = h @ h2"
    using fold_allocate_elements [of xs h "[]"] allocate_extends by blast
  with a show ?thesis by (simp add: JArr Let_def)
next
  case (JObj ps)
  assume a: "snd (allocate t h) = RRef a"
  obtain h2 where "fst (fold (\<lambda>p acc. let y = allocate (snd p) (fst acc)
                                  in (fst y, snd acc @ [(fst p, snd y)]))
                     ps (h, [])) = h @ h2"
    using fold_allocate_properties [of ps h "[]"] allocate_extends by blast
  with a show ?thesis by (simp add: JObj Let_def)
qed auto

section \<open>The claims\<close>

lemmas example_defs =
  browser_def sliced_store_def app_store_def unnamed_store_def num_def select_b_def
  select_a_def returning_def

text \<open>
  Claim C1 does not hold of the code for the slice name that is the empty string.
  The store \<open>unnamed\<close> has the slice \<open>"" = {a: 1}\<close> (\<open>createSlice\<close> accepts the name:
  it is a string). The name is falsy, so \<open>setState({ slice: "", value: {b: 2} })\<close>
  takes the whole-state merge branch: the slice keeps \<open>{a: 1}\<close>, which is not
  structurally equal to \<open>{b: 2}\<close>, and \<open>b\<close> becomes a slice of its own. With
  \<open>replace: true\<close> the same call replaces the whole state by \<open>{b: 2}\<close>, so the flag
  does have an effect. The last two lines: \<open>createSlice({ name: "", initialState:
  {a: 1} })\<close> on the store \<open>appState\<close> makes that slice, and \<open>setState\<close> on it then
  leaves it as it is.
\<close>

theorem C1_empty_slice_name_is_merged:
  "map_of (internalState (instances browser ! 2)) [] = Some (JObj [(''a'', num 1)])
   \<and> state (instances (fst (setState 2 (Some []) (JObj [(''b'', num 2)]) None browser)) ! 2)
       = Inr (JObj [([], JObj [(''a'', num 1)]), (''b'', num 2)])
   \<and> \<not> isEqual (JObj [(''a'', num 1)]) (JObj [(''b'', num 2)])
   \<and> \<not> structurallyEqual (JObj [(''a'', num 1)]) (JObj [(''b'', num 2)])
   \<and> state (instances (fst (setState 2 (Some []) (JObj [(''b'', num 2)]) (Some True) browser)) ! 2)
       = Inr (JObj [(''b'', num 2)])
   \<and> state (instances (fst (createSlice 1 (JStr []) (JObj [(''a'', num 1)]) browser)) ! 1)
       = Inr (JObj [(''b'', num 2), ([], JObj [(''a'', num 1)])])
   \<and> state (instances (fst (setState 1 (Some []) (JObj [(''z'', num 9)]) None
                               (fst (createSlice 1 (JStr []) (JObj [(''a'', num 1)]) browser)))) ! 1)
       = Inr (JObj [(''b'', num 2), ([], JObj [(''a'', num 1)]), (''z'', num 9)])"
  by (simp add: example_defs setState_instances nextInternalState_def spread_def assignProps_def
        state_def cloneObject_def isEqual_def structurallyEqual_def
        createSlice_def notify_def publish_def returning_def Let_def
        saveStateToLocalStorage_def)

text \<open>
  For every other slice name the code does what the claim says. For a store whose
  state maps the slice name \<open>x\<close> to a mapping, where \<open>x\<close> is not the empty string, and
  for every mapping \<open>v\<close>: after \<open>setState({ slice: x, value: v, replace })\<close> the getter
  shows under \<open>x\<close> a value that serializes exactly as \<open>v\<close> does (the previous value of
  the slice is replaced, not merged), and the call does the same whatever \<open>replace\<close>
  is. This holds also when the persistence write fails and the promise is rejected.
\<close>

lemma slice_value_replaced:
  assumes "this < length (instances w)"
    and "map_of (internalState (instances w ! this)) x = Some (JObj cur)"
    and "x \<noteq> []"
  shows "(\<exists>st y. state (instances (fst (setState this (Some x) (JObj v) replace w)) ! this) = Inr (JObj st)
                \<and> map_of st x = Some y \<and> isEqual y (JObj v) \<and> structurallyEqual y (JObj v))
       \<and> setState this (Some x) (JObj v) replace w = setState this (Some x) (JObj v) replace' w"
proof -
  let ?s = "instances w ! this"
  obtain c where c: "cloneObject (JObj v) = Inr c"
    and u: "updateSlice x (JObj v) (internalState ?s) = Inr (AList.update x c (internalState ?s))"
    using updateSlice_object [OF assms(2)] by blast
  have n: "nextInternalState (Some x) (JObj v) r (internalState ?s)
             = Inr (AList.update x c (internalState ?s))" for r
    using assms(3) u by (simp add: nextInternalState_def)
  have inst: "instances (fst (setState this (Some x) (JObj v) replace w)) ! this
                = ?s\<lparr>internalState := AList.update x c (internalState ?s)\<rparr>"
    using assms(1,3) by (simp add: setState_instances n)
  obtain j where j: "JSON_stringify c = Some j"
    using c by (auto simp: cloneObject_def stringify_parse)
  have m: "map_of (AList.update x c (internalState ?s)) x = Some c"
    by (simp add: update_conv')
  obtain st where st: "state (?s\<lparr>internalState := AList.update x c (internalState ?s)\<rparr>) = Inr (JObj st)"
    and y: "map_of st x = Some (JSON_parse j)"
    using state_property [of "?s\<lparr>internalState := AList.update x c (internalState ?s)\<rparr>" x c j] m j
    by auto
  have "isEqual (JSON_parse j) c"
    using j by (simp add: isEqual_def stringify_parse)
  moreover have "isEqual c (JObj v)" using c by (rule cloneObject_isEqual)
  ultimately have "isEqual (JSON_parse j) (JObj v)" by (simp add: isEqual_def)
  with st y inst have first: "\<exists>st y. state (instances (fst (setState this (Some x) (JObj v) replace w)) ! this) = Inr (JObj st)
                \<and> map_of st x = Some y \<and> isEqual y (JObj v) \<and> structurallyEqual y (JObj v)"
    by (auto dest: isEqual_structurallyEqual)
  have second: "setState this (Some x) (JObj v) replace w = setState this (Some x) (JObj v) replace' w"
    using assms(3) by (simp add: setState_result n)
  from first second show ?thesis by blast
qed

text \<open>The example of the claim: the slice \<open>x = {a: 1}\<close> and \<open>v = {b: 2}\<close>.\<close>

lemma slice_value_replaced_example:
  "0 < length (instances browser)
   \<and> map_of (internalState (instances browser ! 0)) ''x'' = Some (JObj [(''a'', num 1)])
   \<and> ''x'' \<noteq> []
   \<and> (\<exists>st y. state (instances (fst (setState 0 (Some ''x'') (JObj [(''b'', num 2)]) None browser)) ! 0)
                 = Inr (JObj st)
              \<and> map_of st ''x'' = Some y \<and> isEqual y (JObj [(''b'', num 2)])
              \<and> structurallyEqual y (JObj [(''b'', num 2)]))
   \<and> setState 0 (Some ''x'') (JObj [(''b'', num 2)]) None browser
       = setState 0 (Some ''x'') (JObj [(''b'', num 2)]) (Some True) browser"
proof -
  have h1: "0 < length (instances browser)" by (simp add: example_defs)
  have h2: "map_of (internalState (instances browser ! 0)) ''x'' = Some (JObj [(''a'', num 1)])"
    by (simp add: example_defs)
  have h3: "''x'' \<noteq> []" by simp
  from slice_value_replaced [OF h1 h2 h3, of "[(''b'', num 2)]" None "Some True"] h1 h2 h3
  show ?thesis by blast
qed

text \<open>
  Claim C2. When the name \<open>n\<close> is in the registry, \<open>new Store({ storeName: n,
  initialState: i, replace: r })\<close> makes no second instance: there are as many
  instances as before and the registry is as before. With a plain mapping \<open>i\<close> (any
  other \<open>i\<close> is refused, claim C9) the world it leaves is the one
  \<open>setState({ value: i, replace: r })\<close> on the registered instance leaves, and it
  returns the registered instance: read through any reference to it, that instance has
  the state the second construction gave it.
\<close>

theorem C2_same_name_same_instance:
  assumes "map_of (storeRegistry w) n = Some existing"
    and "existing < length (instances w)"
  shows "length (instances (fst (new_Store (Some n) i r w))) = length (instances w)
       \<and> storeRegistry (fst (new_Store (Some n) i r w)) = storeRegistry w
       \<and> (isObject i \<longrightarrow>
            new_Store (Some n) i r w = (fst (setState existing None i r w), Inr existing)
          \<and> internalState (instances (fst (new_Store (Some n) i r w)) ! existing)
               = (if r = Some True then asStoreState i
                  else spread (JObj (internalState (instances w ! existing))) i))"
proof (cases "isObject i")
  case False
  then show ?thesis by (simp add: new_Store_def)
next
  case True
  then obtain ps where "i = JObj ps" by (auto simp: isObject_iff)
  then obtain c where c: "cloneObject i = Inr c" by (simp add: cloneObject_def)
  have eq: "new_Store (Some n) i r w = (fst (setState existing None i r w), Inr existing)"
    using assms(1) True by (simp add: new_Store_def c)
  have "internalState (instances (fst (setState existing None i r w)) ! existing)
           = (if r = Some True then asStoreState i
              else spread (JObj (internalState (instances w ! existing))) i)"
    using assms(2) True by (simp add: setState_instances nextInternalState_def)
  then show ?thesis
    by (simp add: eq setState_length setState_registry)
qed

text \<open>
  The store \<open>appState\<close> is registered with the state \<open>{b: 2}\<close>; a second construction
  under that name with \<open>{a: 1}\<close> returns the same instance, whose state is then the
  merge.
\<close>

theorem C2_same_name_same_instance_witness:
  "map_of (storeRegistry browser) ''appState'' = Some 1
   \<and> 1 < length (instances browser)
   \<and> isObject (JObj [(''a'', num 1)])
   \<and> snd (new_Store (Some ''appState'') (JObj [(''a'', num 1)]) None browser) = Inr 1
   \<and> length (instances (fst (new_Store (Some ''appState'') (JObj [(''a'', num 1)]) None browser))) = 3
   \<and> internalState (instances (fst (new_Store (Some ''appState'') (JObj [(''a'', num 1)]) None browser)) ! 1)
        = [(''b'', num 2), (''a'', num 1)]"
proof -
  have h1: "map_of (storeRegistry browser) ''appState'' = Some 1" by (simp add: example_defs)
  have h2: "1 < length (instances browser)" by (simp add: example_defs)
  have h3: "isObject (JObj [(''a'', num 1)])" by simp
  note th = C2_same_name_same_instance [OF h1 h2, of "JObj [(''a'', num 1)]" None]
  have sp: "spread (JObj (internalState (instances browser ! 1))) (JObj [(''a'', num 1)])
          = [(''b'', num 2), (''a'', num 1)]"
    by (simp add: example_defs spread_def assignProps_def)
  have len: "length (instances browser) = 3" by (simp add: example_defs)
  note inner = th [THEN conjunct2, THEN conjunct2, rule_format, OF h3]
  have a: "snd (new_Store (Some ''appState'') (JObj [(''a'', num 1)]) None browser) = Inr 1"
    by (simp add: inner [THEN conjunct1])
  have b: "length (instances (fst (new_Store (Some ''appState'') (JObj [(''a'', num 1)]) None browser))) = 3"
    using th [THEN conjunct1] len by (rule trans)
  have c: "internalState (instances (fst (new_Store (Some ''appState'') (JObj [(''a'', num 1)]) None browser)) ! 1)
        = [(''b'', num 2), (''a'', num 1)]"
    using inner [THEN conjunct2] sp by simp
  from h1 h2 h3 a b c show ?thesis by blast
qed

text \<open>
  Claim C3. A notification fired from \<open>setState\<close> or \<open>createSlice\<close> calls no subscriber:
  \<open>publish(this.state, this.state)\<close> gets the same snapshot twice, so for every store and
  every list of subscriptions it makes no call (it returns, when no selector throws on
  the snapshot; a selector that throws ends it before any call). Hence running a timer
  that \<open>setState\<close> has set, \<open>createSlice\<close> and \<open>setState\<close> itself leave the record of
  the callbacks called as it was.
\<close>

theorem C3_notification_calls_nobody:
  "fst (notify s) = []
   \<and> ((\<forall>item \<in> set (callbackList (pubSub s)). \<forall>snapshot. \<exists>v. config item snapshot = Inr v)
        \<longrightarrow> notify s = ([], Inr ()))
   \<and> invoked (fst (runTimer w)) = invoked w
   \<and> invoked (fst (createSlice this name initialState w)) = invoked w
   \<and> invoked (fst (setState this slice value replace w)) = invoked w"
proof -
  have "notify s = ([], Inr ())"
    if "\<forall>item \<in> set (callbackList (pubSub s)). \<forall>snapshot. \<exists>v. config item snapshot = Inr v"
  proof -
    obtain qs where "state s = Inr (JObj qs)" using state_object by blast
    moreover have "forEach_item (JObj qs) (JObj qs) (callbackList (pubSub s)) = ([], Inr ())"
      using that by (intro publish_same_returns) blast
    ultimately show ?thesis by (simp add: notify_def publish_def)
  qed
  then show ?thesis
    by (simp add: notify_nothing runTimer_invoked createSlice_invoked setState_invoked)
qed

text \<open>
  The subscriber of the store \<open>appState\<close> selects the slice \<open>b\<close>; \<open>setState\<close> changes
  \<open>b\<close> from 2 to 3 and sets a timer, and when the timer has run nobody has been called.
\<close>

theorem C3_notification_calls_nobody_witness:
  "timers (fst (setState 1 None (JObj [(''b'', num 3)]) None browser)) = [1]
   \<and> internalState (instances (fst (setState 1 None (JObj [(''b'', num 3)]) None browser)) ! 1)
       = [(''b'', num 3)]
   \<and> invoked (fst (runTimer (fst (setState 1 None (JObj [(''b'', num 3)]) None browser)))) = []
   \<and> notify app_store = ([], Inr ())"
proof -
  let ?w = "fst (setState 1 None (JObj [(''b'', num 3)]) None browser)"
  have "invoked (fst (runTimer ?w)) = invoked ?w"
    using C3_notification_calls_nobody [of undefined ?w] by blast
  also have "\<dots> = invoked browser"
    using C3_notification_calls_nobody [of undefined browser 1 undefined undefined None "JObj [(''b'', num 3)]" None]
    by blast
  finally have "invoked (fst (runTimer ?w)) = []" by (simp add: browser_def)
  moreover have "timers ?w = [1]"
    by (simp add: example_defs setState_result nextInternalState_def spread_def assignProps_def
          saveStateToLocalStorage_def state_def cloneObject_def Let_def)
  moreover have "internalState (instances ?w ! 1) = [(''b'', num 3)]"
    by (simp add: example_defs setState_instances nextInternalState_def spread_def assignProps_def)
  moreover have "notify app_store = ([], Inr ())"
  proof -
    have "\<forall>item \<in> set (callbackList (pubSub app_store)). \<forall>snapshot. \<exists>v. config item snapshot = Inr v"
      by (simp add: app_store_def select_b_def)
    with C3_notification_calls_nobody [of app_store] show ?thesis by blast
  qed
  ultimately show ?thesis by simp
qed

text \<open>
  Claim C4. With the slice absent and \<open>replace\<close> not \<open>true\<close>, \<open>setState({ value: v })\<close>
  for a plain mapping \<open>v\<close> makes the internal state the shallow union of the previous
  state \<open>m\<close> and \<open>v\<close>: a key of \<open>v\<close> maps to the value it has in \<open>v\<close>, and a key of \<open>m\<close>
  alone keeps its value. (\<open>m\<close> and \<open>v\<close> are objects: no key is listed twice.) Hence the
  new state, and what the getter returns, is structurally equal to every object \<open>u\<close>
  that lists exactly that union.
\<close>

theorem C4_whole_state_merged:
  assumes "this < length (instances w)"
    and "replace \<noteq> Some True"
    and "internalState (instances w ! this) = m"
    and "distinct (map fst m)" and "distinct (map fst v)"
  shows "(\<forall>k. map_of (internalState (instances (fst (setState this None (JObj v) replace w)) ! this)) k
               = (case map_of v k of Some x \<Rightarrow> Some x | None \<Rightarrow> map_of m k))
       \<and> distinct (map fst (internalState (instances (fst (setState this None (JObj v) replace w)) ! this)))
       \<and> (\<forall>u. distinct (map fst u)
                \<and> (\<forall>k. map_of u k = (case map_of v k of Some x \<Rightarrow> Some x | None \<Rightarrow> map_of m k))
              \<longrightarrow> structurallyEqual
                    (JObj (internalState (instances (fst (setState this None (JObj v) replace w)) ! this)))
                    (JObj u)
                \<and> (\<exists>st. state (instances (fst (setState this None (JObj v) replace w)) ! this) = Inr st
                         \<and> structurallyEqual st (JObj u)))"
proof -
  let ?new = "internalState (instances (fst (setState this None (JObj v) replace w)) ! this)"
  have inst: "?new = spread (JObj m) (JObj v)"
    using assms(1,2,3) by (simp add: setState_instances nextInternalState_def)
  have keys: "map_of ?new k = (case map_of v k of Some x \<Rightarrow> Some x | None \<Rightarrow> map_of m k)" for k
    by (simp add: inst map_of_spread [OF assms(4,5)] map_add_def split: option.splits)
  have dist: "distinct (map fst ?new)"
    by (simp add: inst spread_def distinct_assignProps)
  have same: "structurallyEqual (JObj ?new) (JObj u)
              \<and> (\<exists>st. state (instances (fst (setState this None (JObj v) replace w)) ! this) = Inr st
                       \<and> structurallyEqual st (JObj u))"
    if u: "distinct (map fst u)"
      and ku: "\<forall>k. map_of u k = (case map_of v k of Some x \<Rightarrow> Some x | None \<Rightarrow> map_of m k)"
    for u
  proof -
    have "map_of ?new = map_of u" using keys ku by (intro ext) simp
    then have eq: "structurallyEqual (JObj ?new) (JObj u)"
      using dist u by (intro structurallyEqual_same_properties)
    obtain st where st: "state (instances (fst (setState this None (JObj v) replace w)) ! this) = Inr st"
      using state_object by blast
    then have "isEqual st (JObj ?new)"
      by (auto simp: state_def intro: cloneObject_isEqual)
    then have "structurallyEqual st (JObj u)"
      using eq by (blast intro: isEqual_structurallyEqual structurallyEqual_trans)
    with eq st show ?thesis by blast
  qed
  from keys dist same show ?thesis by blast
qed

text \<open>
  The example of the claim: on the state \<open>{b: 2}\<close>, \<open>setState({ value: {a: 1} })\<close>
  leaves the object \<open>{b: 2, a: 1}\<close>, which is structurally equal to \<open>{a: 1, b: 2}\<close>.
  It lists \<open>b\<close> first, so the two serialize differently and \<open>isEqual\<close> tells them
  apart.
\<close>

theorem C4_whole_state_merged_witness:
  "1 < length (instances browser) \<and> None \<noteq> Some True
   \<and> internalState (instances browser ! 1) = [(''b'', num 2)]
   \<and> distinct (map fst [(''b'', num 2)]) \<and> distinct (map fst [(''a'', num 1)])
   \<and> distinct (map fst [(''a'', num 1), (''b'', num 2)])
   \<and> structurallyEqual
        (JObj (internalState (instances (fst (setState 1 None (JObj [(''a'', num 1)]) None browser)) ! 1)))
        (JObj [(''a'', num 1), (''b'', num 2)])
   \<and> (\<exists>st. state (instances (fst (setState 1 None (JObj [(''a'', num 1)]) None browser)) ! 1) = Inr st
            \<and> structurallyEqual st (JObj [(''a'', num 1), (''b'', num 2)]))
   \<and> state (instances (fst (setState 1 None (JObj [(''a'', num 1)]) None browser)) ! 1)
        = Inr (JObj [(''b'', num 2), (''a'', num 1)])
   \<and> \<not> isEqual (JObj [(''b'', num 2), (''a'', num 1)]) (JObj [(''a'', num 1), (''b'', num 2)])"
proof -
  have h1: "1 < length (instances browser)" by (simp add: example_defs)
  have h2: "None \<noteq> Some True" by simp
  have h3: "internalState (instances browser ! 1) = [(''b'', num 2)]" by (simp add: example_defs)
  have h4: "distinct (map fst [(''b'', num 2)])" by simp
  have h5: "distinct (map fst [(''a'', num 1)])" by simp
  have h6: "distinct (map fst [(''a'', num 1), (''b'', num 2)])" by simp
  have h7: "\<forall>k. map_of [(''a'', num 1), (''b'', num 2)] k
               = (case map_of [(''a'', num 1)] k of Some x \<Rightarrow> Some x | None \<Rightarrow> map_of [(''b'', num 2)] k)"
    by simp
  note th = C4_whole_state_merged [OF h1 h2 h3 h4 h5, THEN conjunct2, THEN conjunct2, rule_format,
              of "[(''a'', num 1), (''b'', num 2)]"]
  have se: "structurallyEqual
        (JObj (internalState (instances (fst (setState 1 None (JObj [(''a'', num 1)]) None browser)) ! 1)))
        (JObj [(''a'', num 1), (''b'', num 2)])
   \<and> (\<exists>st. state (instances (fst (setState 1 None (JObj [(''a'', num 1)]) None browser)) ! 1) = Inr st
            \<and> structurallyEqual st (JObj [(''a'', num 1), (''b'', num 2)]))"
    using th h6 h7 by blast
  have st: "state (instances (fst (setState 1 None (JObj [(''a'', num 1)]) None browser)) ! 1)
        = Inr (JObj [(''b'', num 2), (''a'', num 1)])"
    by (simp add: example_defs setState_instances nextInternalState_def spread_def assignProps_def
          state_def cloneObject_def)
  have ne: "\<not> isEqual (JObj [(''b'', num 2), (''a'', num 1)]) (JObj [(''a'', num 1), (''b'', num 2)])"
    by (simp add: isEqual_def num_def)
  from h1 h2 h3 h4 h5 h6 se st ne show ?thesis by blast
qed

text \<open>
  Claim C5. With the slice absent and \<open>replace: true\<close>, \<open>setState({ value: v,
  replace: true })\<close> for a plain mapping \<open>v\<close> makes \<open>v\<close> the internal state: the
  getter then returns a value that serializes exactly as \<open>v\<close> does, and a slice whose
  name is not a key of \<open>v\<close> is gone.
\<close>

theorem C5_whole_state_replaced:
  assumes "this < length (instances w)" and "isObject v"
  shows "JObj (internalState (instances (fst (setState this None v (Some True) w)) ! this)) = v
       \<and> (\<exists>st. state (instances (fst (setState this None v (Some True) w)) ! this) = Inr st
                \<and> isEqual st v \<and> structurallyEqual st v)
       \<and> (\<forall>k. map_of (asStoreState v) k = None \<longrightarrow>
              map_of (internalState (instances (fst (setState this None v (Some True) w)) ! this)) k
                = None)"
proof -
  obtain ps where v: "v = JObj ps" using assms(2) by (auto simp: isObject_iff)
  have inst: "internalState (instances (fst (setState this None v (Some True) w)) ! this) = ps"
    using assms(1) by (simp add: setState_instances nextInternalState_def v)
  obtain st where st: "state (instances (fst (setState this None v (Some True) w)) ! this) = Inr st"
    using state_object by blast
  with inst have "cloneObject v = Inr st" by (simp add: state_def v)
  then have "isEqual st v" by (rule cloneObject_isEqual)
  with st inst show ?thesis by (auto simp: v dest: isEqual_structurallyEqual)
qed

text \<open>The example of the claim: the state \<open>{b: 2}\<close> and \<open>v = {a: 1}\<close>; \<open>b\<close> is lost.\<close>

theorem C5_whole_state_replaced_witness:
  "1 < length (instances browser) \<and> isObject (JObj [(''a'', num 1)])
   \<and> internalState (instances browser ! 1) = [(''b'', num 2)]
   \<and> JObj (internalState (instances (fst (setState 1 None (JObj [(''a'', num 1)]) (Some True) browser)) ! 1))
        = JObj [(''a'', num 1)]
   \<and> (\<exists>st. state (instances (fst (setState 1 None (JObj [(''a'', num 1)]) (Some True) browser)) ! 1) = Inr st
            \<and> isEqual st (JObj [(''a'', num 1)]) \<and> structurallyEqual st (JObj [(''a'', num 1)]))
   \<and> map_of (internalState (instances (fst (setState 1 None (JObj [(''a'', num 1)]) (Some True) browser)) ! 1)) ''b''
        = None"
proof -
  have h1: "1 < length (instances browser)" by (simp add: example_defs)
  have h2: "isObject (JObj [(''a'', num 1)])" by simp
  have h3: "internalState (instances browser ! 1) = [(''b'', num 2)]" by (simp add: example_defs)
  have h4: "map_of (asStoreState (JObj [(''a'', num 1)])) ''b'' = None" by simp
  from C5_whole_state_replaced [OF h1 h2] h1 h2 h3 h4 show ?thesis by blast
qed




text \<open>
  Claim C7. \<open>subscribe(callback, selector)\<close> appends the pair and returns a function
  that, whenever it is called, removes from the list as it is then every entry whose
  callback is the registered one (by reference) and no other entry, keeping the order
  of the rest. After that call a \<open>publish\<close> does not call the callback, whether it
  returns or raises.
\<close>

theorem C7_unsubscribe_removes_callback:
  assumes "subscribe cb cfg this = Inr (this', u)"
  shows "\<exists>c f. cb = Callable c \<and> cfg = Callable f \<and> u = Unsubscriber c
           \<and> callbackList this' = callbackList this @ [\<lparr>callback = c, config = f\<rparr>]
           \<and> (\<forall>later.
                 callbackList (unsubscribe u later)
                   = filter (\<lambda>item. reference (callback item) \<noteq> reference c) (callbackList later)
               \<and> set (callbackList (unsubscribe u later))
                   = {item \<in> set (callbackList later). reference (callback item) \<noteq> reference c}
               \<and> subseq (callbackList (unsubscribe u later)) (callbackList later)
               \<and> (\<forall>current next calls outcome.
                     publish current next (unsubscribe u later) = (calls, outcome) \<longrightarrow>
                     reference c \<notin> fst ` set calls))"
proof -
  from assms obtain c f where cb: "cb = Callable c" and cfg: "cfg = Callable f"
    and u: "u = Unsubscriber c"
    and l: "callbackList this' = callbackList this @ [\<lparr>callback = c, config = f\<rparr>]"
    by (auto simp: subscribe_def split: arg.splits)
  have silent: "reference c \<notin> fst ` set calls"
    if "publish cur nxt (unsubscribe u later) = (calls, outcome)" for cur nxt calls outcome later
  proof -
    from that have "calls = [] \<or> calls = fst (forEach_item cur nxt
                      (filter (\<lambda>item. reference (callback item) \<noteq> reference c) (callbackList later)))"
      by (auto simp: publish_def u split: if_splits)
    then show ?thesis
      using forEach_item_references
              [of cur nxt "filter (\<lambda>item. reference (callback item) \<noteq> reference c) (callbackList later)"]
      by auto
  qed
  have "callbackList (unsubscribe u later)
          = filter (\<lambda>item. reference (callback item) \<noteq> reference c) (callbackList later)
      \<and> set (callbackList (unsubscribe u later))
          = {item \<in> set (callbackList later). reference (callback item) \<noteq> reference c}
      \<and> subseq (callbackList (unsubscribe u later)) (callbackList later)
      \<and> (\<forall>current next calls outcome.
            publish current next (unsubscribe u later) = (calls, outcome) \<longrightarrow>
            reference c \<notin> fst ` set calls)"
    for later
    using silent [of _ _ later] by (auto simp: u)
  with cb cfg u l show ?thesis by blast
qed

text \<open>
  Callback 7 is registered with the selector of \<open>a\<close>, callback 8 with that of \<open>b\<close>,
  callback 7 again with that of \<open>b\<close>. The function the last \<open>subscribe\<close> returned
  removes both entries of callback 7, and a change of both slices then calls only
  callback 8.
\<close>

theorem C7_unsubscribe_removes_callback_witness:
  "subscribe (Callable (returning 7)) (Callable select_b)
      \<lparr>callbackList = [\<lparr>callback = returning 7, config = select_a\<rparr>,
                       \<lparr>callback = returning 8, config = select_b\<rparr>]\<rparr>
     = Inr (three_subscriptions, Unsubscriber (returning 7))
   \<and> callbackList (unsubscribe (Unsubscriber (returning 7)) three_subscriptions)
       = [\<lparr>callback = returning 8, config = select_b\<rparr>]
   \<and> publish (JObj [(''a'', num 1), (''b'', num 2)]) (JObj [(''a'', num 5), (''b'', num 6)])
       (unsubscribe (Unsubscriber (returning 7)) three_subscriptions) = ([(8, num 6)], Inr ())
   \<and> reference (returning 7) \<notin> fst ` set [(8 :: nat, num 6)]"
proof -
  have h: "subscribe (Callable (returning 7)) (Callable select_b)
      \<lparr>callbackList = [\<lparr>callback = returning 7, config = select_a\<rparr>,
                       \<lparr>callback = returning 8, config = select_b\<rparr>]\<rparr>
     = Inr (three_subscriptions, Unsubscriber (returning 7))"
    by (simp add: subscribe_def three_subscriptions_def)
  from C7_unsubscribe_removes_callback [OF h]
  have "callbackList (unsubscribe (Unsubscriber (returning 7)) three_subscriptions)
          = filter (\<lambda>item. reference (callback item) \<noteq> reference (returning 7))
              (callbackList three_subscriptions)"
    by auto
  then have l: "callbackList (unsubscribe (Unsubscriber (returning 7)) three_subscriptions)
       = [\<lparr>callback = returning 8, config = select_b\<rparr>]"
    by (simp add: three_subscriptions_def returning_def)
  have p: "publish (JObj [(''a'', num 1), (''b'', num 2)]) (JObj [(''a'', num 5), (''b'', num 6)])
       (unsubscribe (Unsubscriber (returning 7)) three_subscriptions) = ([(8, num 6)], Inr ())"
    by (simp add: publish_def three_subscriptions_def select_b_def getProp_def isEqual_def
          num_def returning_def Let_def)
  from h l p show ?thesis by (simp add: returning_def)
qed

text \<open>
  Claim C8 does not hold of the code. \<open>setState\<close> with \<open>replace: true\<close> stores the
  caller's object itself (\<open>this._internalState = value\<close>), where the slice branch
  stores \<open>cloneObject(value)\<close>: after \<open>setState({ value: v, replace: true })\<close> with the
  caller's \<open>v = {a: 1}\<close> the store shows \<open>{a: 1}\<close>, and after the caller's \<open>v.a = 99\<close>
  it shows \<open>{a: 99}\<close>.
\<close>

theorem C8_replace_keeps_the_callers_object:
  "setState_at None (RRef 1) (Some True) caller_process
     = Inr (caller_process\<lparr>internalState_at := RRef 1\<rparr>)
   \<and> state_seen (caller_process\<lparr>internalState_at := RRef 1\<rparr>) = Some (JObj [(''a'', num 1)])
   \<and> state_seen (caller_writes (RRef 1) ''a'' (RNum (Finite 99))
                   (caller_process\<lparr>internalState_at := RRef 1\<rparr>))
       = Some (JObj [(''a'', num 99)])"
  by (simp add: setState_at_def caller_process_def state_seen_def state_at_def
        cloneObject_at_def cloneObject_def observe_def caller_writes_def num_def)

text \<open>
  The other paths. \<open>createSlice\<close> stores the caller's \<open>initialState\<close> itself as the
  slice, and the whole-state merge copies the properties of \<open>value\<close> one level deep,
  so an object inside \<open>value\<close> is shared: in both a later write by the caller shows in
  the store. The slice branch stores a clone, and the getter hands out a clone: there a
  later write by the caller does not show.
\<close>

lemma createSlice_keeps_the_callers_object:
  "state_seen (createSlice_at ''cart'' (RRef 1) caller_process)
     = Some (JObj [(''b'', num 2), (''cart'', JObj [(''a'', num 1)])])
   \<and> state_seen (caller_writes (RRef 1) ''a'' (RNum (Finite 99))
                   (createSlice_at ''cart'' (RRef 1) caller_process))
     = Some (JObj [(''b'', num 2), (''cart'', JObj [(''a'', num 99)])])"
  by (simp add: createSlice_at_def caller_process_def state_seen_def state_at_def
        cloneObject_at_def cloneObject_def observe_def caller_writes_def num_def)

lemma merge_shares_nested_objects:
  "setState_at None (RRef 3) None caller_process
     = Inr (caller_process\<lparr>heap := heap caller_process @
                                     [ObjCell [(''b'', RNum (Finite 2)), (''user'', RRef 2)]],
                           internalState_at := RRef 4\<rparr>)
   \<and> state_seen (caller_process\<lparr>heap := heap caller_process @
                                     [ObjCell [(''b'', RNum (Finite 2)), (''user'', RRef 2)]],
                                 internalState_at := RRef 4\<rparr>)
     = Some (JObj [(''b'', num 2), (''user'', JObj [(''n'', num 1)])])
   \<and> state_seen (caller_writes (RRef 2) ''n'' (RNum (Finite 5))
                   (caller_process\<lparr>heap := heap caller_process @
                                     [ObjCell [(''b'', RNum (Finite 2)), (''user'', RRef 2)]],
                                 internalState_at := RRef 4\<rparr>))
     = Some (JObj [(''b'', num 2), (''user'', JObj [(''n'', num 5)])])"
  by (simp add: setState_at_def caller_process_def state_seen_def state_at_def
        cloneObject_at_def cloneObject_def observe_def caller_writes_def num_def)

lemma slice_update_stores_a_clone:
  "\<exists>p. setState_at (Some ''b'') (RRef 1) None caller_process = Inr p
       \<and> state_seen p = Some (JObj [(''b'', JObj [(''a'', num 1)])])
       \<and> state_seen (caller_writes (RRef 1) ''a'' (RNum (Finite 99)) p)
           = Some (JObj [(''b'', JObj [(''a'', num 1)])])"
  by (simp add: setState_at_def updateSlice_at_def getProp_at_def caller_process_def
        state_seen_def state_at_def cloneObject_at_def cloneObject_def observe_def
        caller_writes_def num_def)

lemma getter_hands_out_a_clone:
  "\<exists>p. state_at caller_process = Inr (p, RRef 4)
       \<and> observe p (RRef 4) = Some (JObj [(''b'', num 2)])
       \<and> state_seen (caller_writes (RRef 4) ''b'' (RNum (Finite 7)) p)
           = Some (JObj [(''b'', num 2)])"
  by (simp add: caller_process_def state_seen_def state_at_def
        cloneObject_at_def cloneObject_def observe_def caller_writes_def num_def)

text \<open>
  For every process: with \<open>replace: true\<close> the store's \<open>_internalState\<close> becomes the
  very reference the caller passed, whereas what the getter returns is a new object.
\<close>

lemma getter_result_is_new:
  assumes "state_at p = Inr (p', r)"
  shows "(\<exists>h2. heap p' = heap p @ h2) \<and> internalState_at p' = internalState_at p
       \<and> (\<forall>a. r = RRef a \<longrightarrow> length (heap p) \<le> a)"
proof -
  from assms obtain obj where "contents (Suc (length (heap p))) (heap p) (internalState_at p) = Some obj"
    by (auto simp: state_at_def cloneObject_at_def split: option.splits)
  with assms obtain t where t: "cloneObject obj = Inr t"
    by (auto simp: state_at_def cloneObject_at_def split: sum.splits)
  have "state_at p = Inr (p\<lparr>heap := fst (allocate t (heap p))\<rparr>, snd (allocate t (heap p)))"
    using \<open>contents (Suc (length (heap p))) (heap p) (internalState_at p) = Some obj\<close> t
    by (simp add: state_at_def cloneObject_at_def split: prod.splits)
  with assms have "p' = p\<lparr>heap := fst (allocate t (heap p))\<rparr>" and "r = snd (allocate t (heap p))"
    by simp_all
  then show ?thesis
    using allocate_extends [of t "heap p"] allocate_new [of t "heap p"]
    by auto
qed

lemma replace_stores_the_callers_reference:
  "isObject_at (heap p) v \<Longrightarrow>
   setState_at None v (Some True) p = Inr (p\<lparr>internalState_at := v\<rparr>)"
  by (simp add: setState_at_def)

text \<open>
  Claim C9. \<open>new Store\<close> raises its error for the initial state exactly when the
  \<open>initialState\<close> is not a plain mapping, that is when it is \<open>null\<close>, an array or a
  primitive; then nothing has changed. For a plain mapping it does not raise that
  error: it returns a store, unless the name is an unregistered member of
  \<open>Object.prototype\<close>, on which it raises a \<open>TypeError\<close>.
\<close>

theorem C9_constructor_rejects_non_objects:
  "(snd (new_Store n i r w) = Inl (Error ''initial state must be an object'') \<longleftrightarrow> \<not> isObject i)
   \<and> (\<not> isObject i \<longleftrightarrow>
        i = JNull \<or> (\<exists>xs. i = JArr xs) \<or> i = JUndefined \<or> (\<exists>b. i = JBool b)
        \<or> (\<exists>x. i = JNum x) \<or> (\<exists>s. i = JStr s))
   \<and> (\<not> isObject i \<longrightarrow> fst (new_Store n i r w) = w)
   \<and> (isObject i \<longrightarrow>
        (\<exists>this. snd (new_Store n i r w) = Inr this) \<or> snd (new_Store n i r w) = Inl TypeError)"
proof -
  have shape: "\<not> isObject i \<longleftrightarrow>
        i = JNull \<or> (\<exists>xs. i = JArr xs) \<or> i = JUndefined \<or> (\<exists>b. i = JBool b)
        \<or> (\<exists>x. i = JNum x) \<or> (\<exists>s. i = JStr s)"
    by (cases i) simp_all
  have bad: "new_Store n i r w = (w, Inl (Error ''initial state must be an object''))"
    if "\<not> isObject i"
    using that by (simp add: new_Store_def)
  have good: "(\<exists>this. snd (new_Store n i r w) = Inr this) \<or> snd (new_Store n i r w) = Inl TypeError"
    if "isObject i"
  proof -
    from that obtain ps where "i = JObj ps" by (auto simp: isObject_iff)
    then obtain c where "cloneObject i = Inr c" by (simp add: cloneObject_def)
    with that show ?thesis
      by (simp add: new_Store_def Let_def split: option.splits)
  qed
  have iff: "snd (new_Store n i r w) = Inl (Error ''initial state must be an object'') \<longleftrightarrow> \<not> isObject i"
    using bad good by (cases "isObject i") auto
  from shape bad good iff show ?thesis by simp
qed

text \<open>
  The example of the claim, the string \<open>"not an object"\<close>, and an empty mapping under
  a name that is not registered.
\<close>

theorem C9_constructor_rejects_non_objects_witness:
  "\<not> isObject (JStr ''not an object'')
   \<and> snd (new_Store None (JStr ''not an object'') None browser)
       = Inl (Error ''initial state must be an object'')
   \<and> fst (new_Store None (JStr ''not an object'') None browser) = browser
   \<and> isObject (JObj [])
   \<and> snd (new_Store (Some ''cart'') (JObj []) None browser) = Inr 3"
proof -
  have h1: "\<not> isObject (JStr ''not an object'')" by simp
  have h2: "isObject (JObj [])" by simp
  note th = C9_constructor_rejects_non_objects [of None "JStr ''not an object''" None browser]
  have a: "snd (new_Store None (JStr ''not an object'') None browser)
       = Inl (Error ''initial state must be an object'')"
    using th h1 by blast
  have b: "fst (new_Store None (JStr ''not an object'') None browser) = browser"
    using th h1 by blast
  have c: "snd (new_Store (Some ''cart'') (JObj []) None browser) = Inr 3"
    by (simp add: new_Store_def cloneObject_def example_defs Let_def Object_prototype_names_def)
  from h1 h2 a b c show ?thesis by blast
qed

text \<open>
  Claim C10. When \<open>setState\<close> raises the error for a value that is not an object (the
  slice is omitted or empty, and the value is not a plain mapping), it has changed
  nothing: the check is the first statement. The world is the same, so the state of
  every store is as before, no timer has been set and no \<open>setItem\<close> call has been made.
\<close>

theorem C10_rejected_setState_changes_nothing:
  assumes "\<not> truthy slice" and "\<not> isObject value"
  shows "snd (setState this slice value replace w) = Inl (Error ''non-slice value must be an object'')
       \<and> fst (setState this slice value replace w) = w
       \<and> instances (fst (setState this slice value replace w)) = instances w
       \<and> timers (fst (setState this slice value replace w)) = timers w
       \<and> setItemCalls (fst (setState this slice value replace w)) = setItemCalls w
       \<and> localStorage (fst (setState this slice value replace w)) = localStorage w"
  using assms by (simp add: setState_def)

theorem C10_rejected_setState_changes_nothing_witness:
  "\<not> truthy None \<and> \<not> isObject (JArr [num 1])
   \<and> snd (setState 1 None (JArr [num 1]) (Some True) browser)
        = Inl (Error ''non-slice value must be an object'')
   \<and> fst (setState 1 None (JArr [num 1]) (Some True) browser) = browser
   \<and> timers (fst (setState 1 None (JArr [num 1]) (Some True) browser)) = []
   \<and> setItemCalls (fst (setState 1 None (JArr [num 1]) (Some True) browser)) = []"
proof -
  have h1: "\<not> truthy None" by simp
  have h2: "\<not> isObject (JArr [num 1])" by simp
  from C10_rejected_setState_changes_nothing [OF h1 h2, of 1 "Some True" browser]
  show ?thesis by (simp add: browser_def)
qed

end
